theory Spec2Isabelle
  imports Main "HOL-Library.Sublist" "HOL-Library.Word"
begin

section \<open>External collaborators and constants\<close>

text \<open>
  The synchronisation engine (getUtxos.ts, index.ts, utils/storage-key-encryption.ts)
  is embedded function by function. What the TypeScript imports from elsewhere
  (utils/constants.js, the Web Crypto API, JSON, the note model and the encryption
  service) is not part of these sources and is taken as a parameter, collected in the
  record \<open>platform\<close>. Logging and the two progress counters that only feed log
  messages (roundStartIndex, decryptionTaskFinished) are left out.
\<close>

type_synonym byte = "8 word"

datatype error =
    EncryptError      \<comment> \<open>'Failed to encrypt storage key name'\<close>
  | HttpError         \<comment> \<open>fetch rejected, or 'HTTP error! status: ...'\<close>
  | ApiEmpty          \<comment> \<open>'API returned empty data'\<close>
  | ApiUnexpected     \<comment> \<open>'API returned unexpected data format: ...'\<close>
  | JsonError         \<comment> \<open>JSON.parse threw, or its value cannot be iterated\<close>
  | IndicesError      \<comment> \<open>'failed fetching /utxos/indices'\<close>

text \<open>
  A note as the engine reads it (models/utxo.js): the amount, the ledger index, and
  \<open>blinding\<close> standing for the rest of the note.
\<close>

record utxo =
  amount :: nat
  index :: int
  blinding :: nat

record platform =
  PROGRAM_ID :: string                       \<comment> \<open>PROGRAM_ID.toString()\<close>
  LSK_FETCH_OFFSET :: string
  LSK_ENCRYPTED_OUTPUTS :: string
  FETCH_UTXOS_GROUP_SIZE :: int
  sha256 :: "byte list \<Rightarrow> byte list"      \<comment> \<open>crypto.subtle.digest('SHA-256', _)\<close>
  btoa :: "byte list \<Rightarrow> string"            \<comment> \<open>btoa(String.fromCharCode(...bytes))\<close>
  importKey :: "string \<Rightarrow> byte list option"
    \<comment> \<open>atob of the session key, then crypto.subtle.importKey; None when either throws\<close>
  aes_gcm :: "byte list \<Rightarrow> byte list \<Rightarrow> byte list \<Rightarrow> byte list option"
    \<comment> \<open>crypto.subtle.encrypt with AES-GCM: key, iv, data; None when it throws\<close>
  JSON_parse :: "string \<Rightarrow> string list option"
    \<comment> \<open>JSON.parse of a stored array of ciphertext strings; None when it throws or
        the value cannot be spread\<close>
  JSON_stringify :: "string list \<Rightarrow> string"
  decryptUtxo :: "string \<Rightarrow> utxo option"      \<comment> \<open>encryptionService.decryptUtxo; None when it throws\<close>
  getNullifier :: "utxo \<Rightarrow> string"            \<comment> \<open>utxo.getNullifier()\<close>
  findProgramAddressSync :: "string \<Rightarrow> string \<Rightarrow> string"
    \<comment> \<open>PublicKey.findProgramAddressSync([seed, nullifier bytes], PROGRAM_ID)\<close>
  sort_with_NaN :: "int option list \<Rightarrow> int option list"
    \<comment> \<open>Array.prototype.sort((a, b) => b - a) on an array that holds NaN: the comparator
        is inconsistent there and the resulting order is left to the engine\<close>

section \<open>Storage-key suffixes (getUtxos.ts, utils/storage-key-encryption.ts)\<close>

text \<open>TextEncoder.encode: strings are byte strings here, one byte per character.\<close>

definition utf8 :: "string \<Rightarrow> byte list" where
  "utf8 s = map (\<lambda>c. of_nat (of_char c)) s"

text \<open>base64.replace(/\+/g, '-').replace(/\//g, '_').replace(/=/g, '')\<close>

definition base64url :: "string \<Rightarrow> string" where
  "base64url base64 =
     filter (\<lambda>c. c \<noteq> CHR ''='')
       (map (\<lambda>c. if c = CHR ''/'' then CHR ''_'' else c)
         (map (\<lambda>c. if c = CHR ''+'' then CHR ''-'' else c) base64))"

text \<open>The two memo tables of getUtxos.ts, module-level and never evicted.\<close>

record key_caches =
  publicKeyHashCache :: "string \<rightharpoonup> string"
  publicKeyEncryptionCache :: "string \<rightharpoonup> string"

definition no_caches :: key_caches where
  "no_caches = \<lparr>publicKeyHashCache = Map.empty, publicKeyEncryptionCache = Map.empty\<rparr>"

definition hashPublicKey :: "platform \<Rightarrow> key_caches \<Rightarrow> string \<Rightarrow> string \<times> key_caches" where
  "hashPublicKey P c keyString =
     (case publicKeyHashCache c keyString of
        Some cached \<Rightarrow> (cached, c)
      | None \<Rightarrow>
          (let hashed = base64url (btoa P (sha256 P (utf8 keyString)))
           in (hashed, c\<lparr>publicKeyHashCache := (publicKeyHashCache c)(keyString \<mapsto> hashed)\<rparr>)))"

text \<open>
  encryptStorageKeyName: the IV is the first 12 bytes of the SHA-256 of the public key
  string; the result is base64url of IV followed by the AES-GCM output. Every failure
  inside is rethrown as one error.
\<close>

definition encryptStorageKeyName :: "platform \<Rightarrow> string \<Rightarrow> string \<Rightarrow> error + string" where
  "encryptStorageKeyName P publicKeyString encryptionKey =
     (case importKey P encryptionKey of
        None \<Rightarrow> Inl EncryptError
      | Some cryptoKey \<Rightarrow>
          (let iv = take 12 (sha256 P (utf8 publicKeyString))
           in case aes_gcm P cryptoKey iv (utf8 publicKeyString) of
                None \<Rightarrow> Inl EncryptError
              | Some encrypted \<Rightarrow> Inr (base64url (btoa P (iv @ encrypted)))))"

text \<open>JavaScript truthiness of an optional string: null, undefined and '' are falsy.\<close>

fun truthy :: "string option \<Rightarrow> string option" where
  "truthy None = None"
| "truthy (Some s) = (if s = [] then None else Some s)"

definition localstorageKey ::
  "platform \<Rightarrow> key_caches \<Rightarrow> string \<Rightarrow> string option \<Rightarrow> (error + string) \<times> key_caches" where
  "localstorageKey P c keyString encryptionKey =
     (let contractPrefix = take 6 (PROGRAM_ID P) in
      case truthy encryptionKey of
        Some ek \<Rightarrow>
          (let cacheKey = keyString @ '':'' @ ek in
           case publicKeyEncryptionCache c cacheKey of
             Some cached \<Rightarrow> (Inr (contractPrefix @ cached), c)
           | None \<Rightarrow>
               (case encryptStorageKeyName P keyString ek of
                  Inl e \<Rightarrow> (Inl e, c)
                | Inr encryptedKey \<Rightarrow>
                    (Inr (contractPrefix @ encryptedKey),
                     c\<lparr>publicKeyEncryptionCache :=
                         (publicKeyEncryptionCache c)(cacheKey \<mapsto> encryptedKey)\<rparr>)))
      | None \<Rightarrow>
          (case hashPublicKey P c keyString of
             (hashedKey, c') \<Rightarrow> (Inr (contractPrefix @ hashedKey), c')))"

definition localstorageKeyOld :: "platform \<Rightarrow> string \<Rightarrow> string" where
  "localstorageKeyOld P keyString = take 6 (PROGRAM_ID P) @ keyString"

text \<open>A run of calls to localstorageKey in one process, threading the memo tables.\<close>

fun run_calls :: "platform \<Rightarrow> key_caches \<Rightarrow> (string \<times> string option) list \<Rightarrow> key_caches" where
  "run_calls P c [] = c"
| "run_calls P c ((w, k) # calls) = run_calls P (snd (localstorageKey P c w k)) calls"

text \<open>
  What a fresh process derives. The rest of the engine is written against this value:
  memoisation does not change it, as is proved below.
\<close>

definition derive_suffix :: "platform \<Rightarrow> string \<Rightarrow> string option \<Rightarrow> error + string" where
  "derive_suffix P keyString encryptionKey = fst (localstorageKey P no_caches keyString encryptionKey)"

section \<open>Clearing the cache (index.ts)\<close>

text \<open>
  The persistent key-value adapter (interface CacheStorage): getItem returns the string
  stored under a key or null, setItem overwrites, removeItem deletes.
\<close>

type_synonym cache_storage = "string \<rightharpoonup> string"

definition getItem :: "cache_storage \<Rightarrow> string \<Rightarrow> string option" where
  "getItem st key = st key"

definition setItem :: "cache_storage \<Rightarrow> string \<Rightarrow> string \<Rightarrow> cache_storage" where
  "setItem st key v = st(key \<mapsto> v)"

definition removeItem :: "cache_storage \<Rightarrow> string \<Rightarrow> cache_storage" where
  "removeItem st key = st(key := None)"

text \<open>
  clearCache reads three fields of the PrivacyCash object: publicKey (the constructor
  always sets it, so the guard \<open>if (!this.publicKey) return this\<close> never fires),
  storageKeyEncryptionKey and storage. They are the arguments here, and the result is
  the storage after the call.
\<close>

text \<open>The prefix of the recent-activity key, a literal in the code.\<close>

definition tradeHistory :: string where
  "tradeHistory = ''tradeHistory''"

text \<open>clearCache of the index.ts that carries a session key (two removals).\<close>

definition clearCache ::
  "platform \<Rightarrow> string \<Rightarrow> string option \<Rightarrow> cache_storage \<Rightarrow> error + cache_storage" where
  "clearCache P publicKey storageKeyEncryptionKey storage =
     (case derive_suffix P publicKey storageKeyEncryptionKey of
        Inl e \<Rightarrow> Inl e
      | Inr storageKeySuffix \<Rightarrow>
          Inr (removeItem (removeItem storage (LSK_FETCH_OFFSET P @ storageKeySuffix))
                 (LSK_ENCRYPTED_OUTPUTS P @ storageKeySuffix)))"

text \<open>
  clearCache of the earlier index.ts: no session key (the suffix is the hashed one), and
  the three old-format keys of the same wallet are removed as well.
\<close>

definition clearCache_hashed :: "platform \<Rightarrow> string \<Rightarrow> cache_storage \<Rightarrow> error + cache_storage" where
  "clearCache_hashed P publicKey storage =
     (case derive_suffix P publicKey None of
        Inl e \<Rightarrow> Inl e
      | Inr storageKeySuffix \<Rightarrow>
          (let st1 = removeItem storage (LSK_FETCH_OFFSET P @ storageKeySuffix);
               st2 = removeItem st1 (LSK_ENCRYPTED_OUTPUTS P @ storageKeySuffix);
               oldSuffix = take 6 (PROGRAM_ID P) @ publicKey;
               st3 = removeItem st2 (LSK_FETCH_OFFSET P @ oldSuffix);
               st4 = removeItem st3 (LSK_ENCRYPTED_OUTPUTS P @ oldSuffix);
               st5 = removeItem st4 (tradeHistory @ oldSuffix)
           in Inr st5))"

text \<open>
  The three key prefixes never overlap: none is an initial segment of another, so a key
  determines its prefix and its suffix. (The values of the two LSK constants are not in
  these sources; \<open>'tradeHistory'\<close> is literal in the code.)
\<close>

definition key_prefixes :: "platform \<Rightarrow> string list" where
  "key_prefixes P = [LSK_FETCH_OFFSET P, LSK_ENCRYPTED_OUTPUTS P, tradeHistory]"

definition prefixes_apart :: "platform \<Rightarrow> bool" where
  "prefixes_apart P \<longleftrightarrow>
     distinct (key_prefixes P) \<and>
     list_all (\<lambda>p. list_all (\<lambda>q. p = q \<or> \<not> prefix p q) (key_prefixes P)) (key_prefixes P)"

text \<open>A platform to evaluate the definitions on; its cryptography is a toy.\<close>

definition fixture :: platform where
  "fixture =
     \<lparr>PROGRAM_ID = ''9fhQBbumKEFuXtMBDw8AaQyAjCorLGJQiS3skWZdQyQD'',
      LSK_FETCH_OFFSET = ''fetch_offset'',
      LSK_ENCRYPTED_OUTPUTS = ''encrypted_outputs'',
      FETCH_UTXOS_GROUP_SIZE = 100,
      sha256 = (\<lambda>bs. take 12 (rev bs @ replicate 12 120)),
      btoa = map (\<lambda>b. char_of (unat b)),
      importKey = (\<lambda>k. if length k = 4 then Some (utf8 k) else None),
      aes_gcm = (\<lambda>key iv data. Some (data @ key)),
      JSON_parse = (\<lambda>s. if s = [] then None else Some (map (\<lambda>c. [c]) s)),
      JSON_stringify = concat,
      decryptUtxo = (\<lambda>s. if s = ''bad'' then None
                          else Some \<lparr>amount = length s, index = 0, blinding = 0\<rparr>),
      getNullifier = (\<lambda>u. replicate (amount u) CHR ''n''),
      findProgramAddressSync = (\<lambda>seed nullifier. seed @ nullifier),
      sort_with_NaN = (\<lambda>xs. xs)\<rparr>"

section \<open>JavaScript numbers, strings and arrays, as far as the engine uses them\<close>

text \<open>
  Offsets and ledger indices are JavaScript numbers. They are modelled in the range of
  the safe integers (below \<open>2 ^ 53\<close> in absolute value), where a double is the
  integer it shows; \<open>None\<close> is NaN. Fractions and numbers beyond that range are
  outside the model.
\<close>

type_synonym jsnum = "int option"


definition num_add :: "jsnum \<Rightarrow> jsnum \<Rightarrow> jsnum" where
  "num_add a b = (case a of None \<Rightarrow> None | Some x \<Rightarrow> (case b of None \<Rightarrow> None | Some y \<Rightarrow> Some (x + y)))"

text \<open>\<open>a > b\<close>: false as soon as one side is NaN.\<close>

definition num_gt :: "jsnum \<Rightarrow> jsnum \<Rightarrow> bool" where
  "num_gt a b = (case a of None \<Rightarrow> False | Some x \<Rightarrow> (case b of None \<Rightarrow> False | Some y \<Rightarrow> x > y))"

definition digit_of :: "char \<Rightarrow> nat option" where
  "digit_of c = (let n = (of_char c :: nat) in if 48 \<le> n \<and> n \<le> 57 then Some (n - 48) else None)"

definition digit_char :: "nat \<Rightarrow> char" where
  "digit_char d = char_of (48 + d)"

fun digits_value :: "nat \<Rightarrow> string \<Rightarrow> nat option" where
  "digits_value acc [] = Some acc"
| "digits_value acc (c # cs) =
     (case digit_of c of None \<Rightarrow> None | Some d \<Rightarrow> digits_value (10 * acc + d) cs)"

text \<open>
  \<open>Number(s)\<close> on the strings the engine stores: the empty string is 0, a run of
  decimal digits is its value, with an optional leading minus sign. Every other string
  is read as NaN here; JavaScript also accepts surrounding white space, a plus sign,
  fractions, exponents, radix prefixes and Infinity, none of which the engine writes.
\<close>

definition Number :: "string \<Rightarrow> jsnum" where
  "Number s =
     (case s of
        [] \<Rightarrow> Some 0
      | c # cs \<Rightarrow>
          if c = CHR ''-'' then
            (if cs = [] then None else map_option (\<lambda>n. - int n) (digits_value 0 cs))
          else map_option int (digits_value 0 s))"

fun show_nat :: "nat \<Rightarrow> string" where
  "show_nat n = (if n < 10 then [digit_char n] else show_nat (n div 10) @ [digit_char (n mod 10)])"

declare show_nat.simps [simp del]

definition toString :: "int \<Rightarrow> string" where
  "toString i = (if i < 0 then CHR ''-'' # show_nat (nat (- i)) else show_nat (nat i))"

definition num_toString :: "jsnum \<Rightarrow> string" where
  "num_toString a = (case a of None \<Rightarrow> ''NaN'' | Some i \<Rightarrow> toString i)"

text \<open>\<open>s.split(',')\<close>: never empty, \<open>''.split(',')\<close> is \<open>['']\<close>.\<close>

fun split_commas :: "string \<Rightarrow> string list" where
  "split_commas [] = [[]]"
| "split_commas (c # cs) =
     (if c = CHR '','' then [] # split_commas cs
      else (case split_commas cs of [] \<Rightarrow> [[c]] | x # xs \<Rightarrow> (c # x) # xs))"

text \<open>\<open>xs.join(',')\<close>\<close>

fun join_commas :: "string list \<Rightarrow> string" where
  "join_commas [] = []"
| "join_commas [x] = x"
| "join_commas (x # y # ys) = x @ CHR '','' # join_commas (y # ys)"

text \<open>\<open>[...new Set(xs)]\<close>: the first occurrence of each value, in order.\<close>

definition dedupe :: "'a list \<Rightarrow> 'a list" where
  "dedupe xs = rev (remdups (rev xs))"

text \<open>
  \<open>xs.sort((a, b) => b - a)\<close>: descending for numbers. With a NaN in the array the
  order is the engine's.
\<close>

definition sort_desc :: "platform \<Rightarrow> jsnum list \<Rightarrow> jsnum list" where
  "sort_desc P xs =
     (if None \<in> set xs then sort_with_NaN P xs
      else map Some (rev (sort (map the xs))))"

section \<open>The world the engine runs in\<close>

text \<open>
  \<open>adapter\<close> is the CacheStorage object passed as \<open>storage\<close>;
  \<open>chrome_local\<close> is the global chrome.storage.local, \<open>None\<close> where the test
  \<open>typeof chrome !== 'undefined' && chrome.storage && chrome.storage.local\<close> fails
  (Node, a plain web page). The code reads and writes them as two objects, and so does
  the model; its chrome calls succeed. \<open>tick\<close> counts the calls made to the outside
  (network, ledger, clock): what the outside answers may depend on it.
  \<open>getMyUtxosPromise\<close> is the module-level in-flight handle.
\<close>

datatype promise = Pending

record world =
  adapter :: cache_storage
  chrome_local :: "cache_storage option"
  tick :: nat
  getMyUtxosPromise :: "promise option"

datatype 'a outcome = Returned 'a | Thrown error

datatype jsval = JNum int | JOther

datatype indices_field =
    Missing                \<comment> \<open>\<open>j.indices\<close> is absent or falsy\<close>
  | Not_array              \<comment> \<open>truthy, but \<open>Array.isArray\<close> is false\<close>
  | Arr "jsval list"

datatype indices_reply = Indices_throws | Indices_body indices_field

datatype range_reply =
    Range_throws                       \<comment> \<open>fetch or res.json() rejects\<close>
  | Range_not_ok                       \<comment> \<open>\<open>!res.ok\<close>\<close>
  | Range_falsy                        \<comment> \<open>\<open>!data\<close>\<close>
  | Range_array "string list"          \<comment> \<open>an array of ApiUtxo: the encrypted_output of each, '' when it has none\<close>
  | Range_object "string list" bool    \<comment> \<open>an object: encrypted_outputs, and whether hasMore is truthy\<close>
  | Range_other

datatype account = Account nat

record network =
  get_range :: "nat \<Rightarrow> jsnum \<Rightarrow> jsnum \<Rightarrow> range_reply"
    \<comment> \<open>GET /utxos/range?start=..&end=..\<close>
  post_indices :: "nat \<Rightarrow> string list \<Rightarrow> indices_reply"
    \<comment> \<open>POST /utxos/indices\<close>
  getMultipleAccountsInfo :: "nat \<Rightarrow> string list \<Rightarrow> account option list option"
    \<comment> \<open>connection.getMultipleAccountsInfo; None when it throws\<close>
  Date_now :: "nat \<Rightarrow> int"

section \<open>Migration of storage keys (getUtxos.ts, migrateStorageKeys)\<close>

text \<open>
  The sources hold two revisions of getUtxos.ts. \<open>Chrome_direct\<close> is the one that
  writes a debug marker and reads and writes chrome.storage.local next to the adapter;
  \<open>Adapter_only\<close> is the one without the marker, reading and writing the adapter
  alone. Both delete the old keys from chrome.storage.local when it exists and from the
  adapter otherwise.
\<close>

datatype revision = Chrome_direct | Adapter_only

datatype kind = Fetch_offset | Encrypted_outputs | TradeHistory

fun kind_prefix :: "platform \<Rightarrow> kind \<Rightarrow> string" where
  "kind_prefix P Fetch_offset = LSK_FETCH_OFFSET P"
| "kind_prefix P Encrypted_outputs = LSK_ENCRYPTED_OUTPUTS P"
| "kind_prefix P TradeHistory = tradeHistory"

definition keysToMigrate :: "kind list" where
  "keysToMigrate = [Fetch_offset, Encrypted_outputs, TradeHistory]"

text \<open>\<open>chromeStorageData[key] || null\<close>\<close>

definition chrome_get :: "cache_storage \<Rightarrow> string \<Rightarrow> string option" where
  "chrome_get cs key = truthy (cs key)"

text \<open>storage.getItem, then chrome.storage.local where the revision looks there.\<close>

definition read_value :: "revision \<Rightarrow> world \<Rightarrow> string \<Rightarrow> string option" where
  "read_value rv w key =
     (case getItem (adapter w) key of
        Some v \<Rightarrow> Some v
      | None \<Rightarrow>
          (case rv of
             Adapter_only \<Rightarrow> None
           | Chrome_direct \<Rightarrow>
               (case chrome_local w of None \<Rightarrow> None | Some cs \<Rightarrow> chrome_get cs key)))"

text \<open>storage.setItem, then chrome.storage.local.set where the revision writes there.\<close>

definition write_value :: "revision \<Rightarrow> world \<Rightarrow> string \<Rightarrow> string \<Rightarrow> world" where
  "write_value rv w key v =
     w\<lparr>adapter := setItem (adapter w) key v,
       chrome_local :=
         (case rv of
            Adapter_only \<Rightarrow> chrome_local w
          | Chrome_direct \<Rightarrow> map_option (\<lambda>cs. cs(key \<mapsto> v)) (chrome_local w))\<rparr>"

text \<open>The batch deletion that ends the migration.\<close>

definition remove_keys :: "world \<Rightarrow> string list \<Rightarrow> world" where
  "remove_keys w keys =
     (case chrome_local w of
        Some cs \<Rightarrow> w\<lparr>chrome_local := Some (foldl (\<lambda>m k. m(k := None)) cs keys)\<rparr>
      | None \<Rightarrow> w\<lparr>adapter := foldl removeItem (adapter w) keys\<rparr>)"

text \<open>
  The merge of a value found under an older key into the value under the new key:
  \<open>Some v\<close> is written, \<open>None\<close> leaves the new key as it is (the smaller offset, or
  the catch branch of the merge).
\<close>

fun merge_values :: "platform \<Rightarrow> kind \<Rightarrow> string \<Rightarrow> string \<Rightarrow> string option" where
  "merge_values P Fetch_offset oldValue newValue =
     (if num_gt (Number oldValue) (Number newValue) then Some oldValue else None)"
| "merge_values P Encrypted_outputs oldValue newValue =
     (case JSON_parse P oldValue of
        None \<Rightarrow> None
      | Some oldData \<Rightarrow>
          (case JSON_parse P newValue of
             None \<Rightarrow> None
           | Some newData \<Rightarrow> Some (JSON_stringify P (dedupe (oldData @ newData)))))"
| "merge_values P TradeHistory oldValue newValue =
     (let oldData = map Number (split_commas oldValue);
          newData = map Number (split_commas newValue);
          merged = dedupe (oldData @ newData);
          top20 = take 20 (sort_desc P merged)
      in Some (join_commas (map num_toString top20)))"

text \<open>
  One leg of the migration of one kind, from a source key (old format, or hashed) to the
  new key; the code has this block twice. The flag says whether a value was found under
  the source key.
\<close>

definition migrate_from ::
  "platform \<Rightarrow> revision \<Rightarrow> kind \<Rightarrow> string \<Rightarrow> string \<Rightarrow> world \<Rightarrow> world \<times> bool" where
  "migrate_from P rv k sourceKey newKey w =
     (case read_value rv w sourceKey of
        None \<Rightarrow> (w, False)
      | Some sourceValue \<Rightarrow>
          (case read_value rv w newKey of
             None \<Rightarrow> (write_value rv w newKey sourceValue, True)
           | Some newValue \<Rightarrow>
               (case merge_values P k sourceValue newValue of
                  None \<Rightarrow> (w, True)
                | Some mergedValue \<Rightarrow> (write_value rv w newKey mergedValue, True))))"

text \<open>The body of the loop over keysToMigrate; the state is the world and oldKeysToDelete.\<close>

definition migrate_kind ::
  "platform \<Rightarrow> revision \<Rightarrow> string \<Rightarrow> string \<Rightarrow> string \<Rightarrow> bool \<Rightarrow>
   world \<times> string list \<Rightarrow> kind \<Rightarrow> world \<times> string list" where
  "migrate_kind P rv oldKeySuffix hashedKeySuffix newKeySuffix needsMigration state k =
     (let w = fst state; oldKeysToDelete = snd state;
          oldKey = kind_prefix P k @ oldKeySuffix;
          hashedKey = kind_prefix P k @ hashedKeySuffix;
          newKey = kind_prefix P k @ newKeySuffix;
          w1 = fst (migrate_from P rv k oldKey newKey w);
          del1 = oldKeysToDelete @ [oldKey]
      in if needsMigration then
           (case migrate_from P rv k hashedKey newKey w1 of
              (w2, found) \<Rightarrow> (w2, if found then del1 @ [hashedKey] else del1))
         else (w1, del1))"

text \<open>The marker written first by the revision that has it.\<close>

definition write_marker :: "network \<Rightarrow> string \<Rightarrow> world \<Rightarrow> world" where
  "write_marker net publicKey w =
     (let testMarker = ''Migration executed at '' @ toString (Date_now net (tick w))
                         @ '' for wallet '' @ take 8 publicKey
      in w\<lparr>adapter := setItem (adapter w) ''SDK_MIGRATION_TEST'' testMarker,
           chrome_local :=
             map_option (\<lambda>cs. cs(''SDK_MIGRATION_TEST_DIRECT'' \<mapsto> testMarker)) (chrome_local w),
           tick := Suc (tick w)\<rparr>)"

definition migrateStorageKeys ::
  "platform \<Rightarrow> network \<Rightarrow> revision \<Rightarrow> string \<Rightarrow> string option \<Rightarrow> world \<Rightarrow> unit outcome \<times> world" where
  "migrateStorageKeys P net rv publicKey encryptionKey w =
     (let w0 = (case rv of Chrome_direct \<Rightarrow> write_marker net publicKey w | Adapter_only \<Rightarrow> w);
          oldKeySuffix = localstorageKeyOld P publicKey
      in case derive_suffix P publicKey None of
           Inl e \<Rightarrow> (Thrown e, w0)
         | Inr hashedKeySuffix \<Rightarrow>
             (case derive_suffix P publicKey encryptionKey of
                Inl e \<Rightarrow> (Thrown e, w0)
              | Inr newKeySuffix \<Rightarrow>
                  (let needsMigration = (truthy encryptionKey \<noteq> None \<and> hashedKeySuffix \<noteq> newKeySuffix);
                       done = foldl (migrate_kind P rv oldKeySuffix hashedKeySuffix newKeySuffix
                                       needsMigration) (w0, []) keysToMigrate
                   in (Returned (), remove_keys (fst done) (snd done)))))"

section \<open>Decryption of a batch (getUtxos.ts, decrypt_outputs)\<close>

text \<open>
  type DecryptRes = { status: 'decrypted' | 'skipped' | 'unDecrypted', utxo?, encryptedOutput? }
\<close>

datatype DecryptRes = Decrypted utxo string | Skipped | UnDecrypted

text \<open>The body of the loop over the batch: the try and its catch.\<close>

definition decrypt_output :: "platform \<Rightarrow> string \<Rightarrow> DecryptRes" where
  "decrypt_output P encryptedOutput =
     (if encryptedOutput = [] then Skipped
      else (case decryptUtxo P encryptedOutput of
              Some u \<Rightarrow> Decrypted u encryptedOutput
            | None \<Rightarrow> UnDecrypted))"

fun is_decrypted :: "DecryptRes \<Rightarrow> bool" where
  "is_decrypted (Decrypted u c) = True"
| "is_decrypted Skipped = False"
| "is_decrypted UnDecrypted = False"

fun encryptedOutput_of :: "DecryptRes \<Rightarrow> string" where
  "encryptedOutput_of (Decrypted u c) = c"
| "encryptedOutput_of Skipped = []"
| "encryptedOutput_of UnDecrypted = []"

text \<open>
  \<open>if (utxo.index !== j.indices[i] && typeof j.indices[i] == 'number') utxo.index = j.indices[i]\<close>
\<close>

fun update_index :: "DecryptRes \<Rightarrow> jsval \<Rightarrow> DecryptRes" where
  "update_index (Decrypted u c) (JNum n) = Decrypted (u\<lparr>index := n\<rparr>) c"
| "update_index (Decrypted u c) JOther = Decrypted u c"
| "update_index Skipped v = Skipped"
| "update_index UnDecrypted v = UnDecrypted"

definition decrypt_outputs ::
  "platform \<Rightarrow> network \<Rightarrow> string list \<Rightarrow> world \<Rightarrow> DecryptRes list outcome \<times> world" where
  "decrypt_outputs P net encryptedOutputs w =
     (let results = filter is_decrypted (map (decrypt_output P) encryptedOutputs) in
      if results = [] then (Returned [], w)
      else
        (let encrypted_outputs = map encryptedOutput_of results;
             w' = w\<lparr>tick := Suc (tick w)\<rparr>
         in case post_indices net (tick w) encrypted_outputs of
              Indices_throws \<Rightarrow> (Thrown HttpError, w')
            | Indices_body Missing \<Rightarrow> (Thrown IndicesError, w')
            | Indices_body Not_array \<Rightarrow> (Thrown IndicesError, w')
            | Indices_body (Arr indices) \<Rightarrow>
                if length indices \<noteq> length encrypted_outputs then (Thrown IndicesError, w')
                else (Returned (map (\<lambda>(r, v). update_index r v) (zip results indices)), w')))"

section \<open>Spent check (getUtxos.ts, areUtxosSpent)\<close>

text \<open>The two marker addresses of every note, each with the position of its note.\<close>

definition allPDAs_of :: "platform \<Rightarrow> utxo list \<Rightarrow> (nat \<times> string) list" where
  "allPDAs_of P utxos =
     concat (map (\<lambda>(i, u).
                    [(i, findProgramAddressSync P ''nullifier0'' (getNullifier P u)),
                     (i, findProgramAddressSync P ''nullifier1'' (getNullifier P u))])
               (enumerate 0 utxos))"

text \<open>\<open>results[i] !== null\<close>: past the end of the array the value is undefined, not null.\<close>

definition not_null_at :: "account option list \<Rightarrow> nat \<Rightarrow> bool" where
  "not_null_at results i = (if i < length results then results ! i \<noteq> None else True)"

text \<open>The loop over allPDAs that sets the flags; a write past the flags' end is not modelled
  (utxoIndex is always a position of the note list).\<close>

definition spentFlags_of :: "nat \<Rightarrow> (nat \<times> string) list \<Rightarrow> account option list \<Rightarrow> bool list" where
  "spentFlags_of n allPDAs results =
     foldl (\<lambda>flags i. if not_null_at results i then flags[fst (allPDAs ! i) := True] else flags)
       (replicate n False) [0..<length allPDAs]"

text \<open>
  A failed ledger call is retried after a delay, without bound: the function has no
  value where every attempt fails. The tick after the call comes with the flags.
\<close>

partial_function (option) areUtxosSpent ::
  "platform \<Rightarrow> network \<Rightarrow> utxo list \<Rightarrow> nat \<Rightarrow> (bool list \<times> nat) option" where
  "areUtxosSpent P net utxos t =
     (case getMultipleAccountsInfo net t (map snd (allPDAs_of P utxos)) of
        None \<Rightarrow> areUtxosSpent P net utxos (Suc t)
      | Some results \<Rightarrow> Some (spentFlags_of (length utxos) (allPDAs_of P utxos) results, Suc t))"

section \<open>One page (getUtxos.ts, fetchUserUtxos)\<close>

text \<open>The shapes of the range reply; the flag is \<open>data.hasMore\<close>, undefined for an array.\<close>

fun raw_outputs :: "range_reply \<Rightarrow> (string list \<times> bool) outcome" where
  "raw_outputs Range_throws = Thrown HttpError"
| "raw_outputs Range_not_ok = Thrown HttpError"
| "raw_outputs Range_falsy = Thrown ApiEmpty"
| "raw_outputs (Range_array api_utxos) = Returned (filter (\<lambda>e. e \<noteq> []) api_utxos, False)"
| "raw_outputs (Range_object encrypted_outputs hasMore) = Returned (encrypted_outputs, hasMore)"
| "raw_outputs Range_other = Thrown ApiUnexpected"

text \<open>\<open>dres.status == 'decrypted' && dres.utxo\<close>: the note and its ciphertext.\<close>

fun decrypted_pairs :: "DecryptRes list \<Rightarrow> (utxo \<times> string) list" where
  "decrypted_pairs [] = []"
| "decrypted_pairs (Decrypted u c # rs) = (u, c) # decrypted_pairs rs"
| "decrypted_pairs (Skipped # rs) = decrypted_pairs rs"
| "decrypted_pairs (UnDecrypted # rs) = decrypted_pairs rs"

text \<open>
  What fetchUserUtxos returns: the notes of this wallet paired with their ciphertexts
  (\<open>utxos\<close> and \<open>encryptedOutputs\<close>, filled together), \<open>hasMore\<close>, and \<open>len\<close>.
\<close>

datatype fetched = Fetched "(utxo \<times> string) list" bool nat

definition fetchUserUtxos ::
  "platform \<Rightarrow> network \<Rightarrow> string \<Rightarrow> string option \<Rightarrow> jsnum \<Rightarrow> jsnum \<Rightarrow> world \<Rightarrow>
   fetched outcome \<times> world" where
  "fetchUserUtxos P net publicKey storageKeyEncryptionKey range_start range_end w =
     (let w1 = w\<lparr>tick := Suc (tick w)\<rparr> in
      case raw_outputs (get_range net (tick w) range_start range_end) of
        Thrown e \<Rightarrow> (Thrown e, w1)
      | Returned (encryptedOutputs, hasMore) \<Rightarrow>
          (case derive_suffix P publicKey storageKeyEncryptionKey of
             Inl e \<Rightarrow> (Thrown e, w1)
           | Inr storageKeySuffix \<Rightarrow>
               (let cachedString =
                      truthy (getItem (adapter w1) (LSK_ENCRYPTED_OUTPUTS P @ storageKeySuffix))
                in case (case cachedString of None \<Rightarrow> Some [] | Some cs \<Rightarrow> JSON_parse P cs) of
                     None \<Rightarrow> (Thrown JsonError, w1)
                   | Some cachedEncryptedOutputs \<Rightarrow>
                       (case decrypt_outputs P net encryptedOutputs w1 of
                          (Thrown e, w2) \<Rightarrow> (Thrown e, w2)
                        | (Returned batchRes, w2) \<Rightarrow>
                            if hasMore \<or> cachedString = None then
                              (Returned (Fetched (decrypted_pairs batchRes) hasMore
                                           (length encryptedOutputs)), w2)
                            else
                              (case decrypt_outputs P net cachedEncryptedOutputs w2 of
                                 (Thrown e, w3) \<Rightarrow> (Thrown e, w3)
                               | (Returned cachedRes, w3) \<Rightarrow>
                                   (Returned (Fetched (decrypted_pairs batchRes
                                                         @ decrypted_pairs cachedRes) hasMore
                                                (length encryptedOutputs)), w3))))))"

section \<open>The synchronisation (getUtxos.ts, getUtxos)\<close>

text \<open>valid_utxos, valid_strings and history_indexes.\<close>

type_synonym sync_acc = "utxo list \<times> string list \<times> jsnum list"

text \<open>
  \<open>for (i < nonZeroUtxos.length) if (!spentFlags[i]) ...\<close>: a flag past the end of
  the flags is undefined, hence falsy.
\<close>

definition select_unspent :: "(utxo \<times> string) list \<Rightarrow> bool list \<Rightarrow> (utxo \<times> string) list" where
  "select_unspent nonZero spentFlags =
     map (\<lambda>i. nonZero ! i)
       (filter (\<lambda>i. \<not> (i < length spentFlags \<and> spentFlags ! i)) [0..<length nonZero])"

text \<open>
  One turn of the \<open>while (true)\<close> loop, up to the test of \<open>fetched.hasMore\<close>: the
  accumulators after the page, whether the loop goes on, and the world, in which the
  offset has been written. No value where the spent check never returns.
\<close>

definition sync_page ::
  "platform \<Rightarrow> network \<Rightarrow> string \<Rightarrow> string option \<Rightarrow> string \<Rightarrow> sync_acc \<Rightarrow> world \<Rightarrow>
   ((sync_acc \<times> bool) outcome \<times> world) option" where
  "sync_page P net publicKey storageKeyEncryptionKey storageKeySuffix acc w =
     (let offsetStr = truthy (getItem (adapter w) (LSK_FETCH_OFFSET P @ storageKeySuffix));
          fetch_utxo_offset = (case offsetStr of Some s \<Rightarrow> Number s | None \<Rightarrow> Some 0);
          fetch_utxo_end = num_add fetch_utxo_offset (Some (FETCH_UTXOS_GROUP_SIZE P))
      in case fetchUserUtxos P net publicKey storageKeyEncryptionKey
                fetch_utxo_offset fetch_utxo_end w of
           (Thrown e, w1) \<Rightarrow> Some (Thrown e, w1)
         | (Returned (Fetched pairs hasMore n), w1) \<Rightarrow>
             (let history_indexes = snd (snd acc) @ map (\<lambda>(u, c). Some (index u)) pairs;
                  nonZero = filter (\<lambda>(u, c). amount u > 0) pairs
              in case (if nonZero = [] then Some ([], tick w1)
                       else areUtxosSpent P net (map fst nonZero) (tick w1)) of
                   None \<Rightarrow> None
                 | Some (spentFlags, t2) \<Rightarrow>
                     (let unspent = select_unspent nonZero spentFlags;
                          w2 = w1\<lparr>adapter :=
                                    setItem (adapter w1) (LSK_FETCH_OFFSET P @ storageKeySuffix)
                                      (num_toString (num_add fetch_utxo_offset (Some (int n)))),
                                  tick := t2\<rparr>
                      in Some (Returned ((fst acc @ map fst unspent,
                                          fst (snd acc) @ map snd unspent,
                                          history_indexes), hasMore), w2))))"

partial_function (option) sync_loop ::
  "platform \<Rightarrow> network \<Rightarrow> string \<Rightarrow> string option \<Rightarrow> string \<Rightarrow> sync_acc \<Rightarrow> world \<Rightarrow>
   (sync_acc outcome \<times> world) option" where
  "sync_loop P net publicKey storageKeyEncryptionKey storageKeySuffix acc w =
     (case sync_page P net publicKey storageKeyEncryptionKey storageKeySuffix acc w of
        None \<Rightarrow> None
      | Some (Thrown e, w') \<Rightarrow> Some (Thrown e, w')
      | Some (Returned (acc', hasMore), w') \<Rightarrow>
          if hasMore then sync_loop P net publicKey storageKeyEncryptionKey storageKeySuffix acc' w'
          else Some (Returned acc', w'))"

text \<open>The try block of the attempt: migration, then the loop.\<close>

definition sync_try ::
  "platform \<Rightarrow> network \<Rightarrow> revision \<Rightarrow> string \<Rightarrow> string option \<Rightarrow> world \<Rightarrow>
   (sync_acc outcome \<times> world) option" where
  "sync_try P net rv publicKey storageKeyEncryptionKey w =
     (case migrateStorageKeys P net rv publicKey storageKeyEncryptionKey w of
        (Thrown e, w1) \<Rightarrow> Some (Thrown e, w1)
      | (Returned u, w1) \<Rightarrow>
          (case derive_suffix P publicKey storageKeyEncryptionKey of
             Inl e \<Rightarrow> Some (Thrown e, w1)
           | Inr storageKeySuffix \<Rightarrow>
               sync_loop P net publicKey storageKeyEncryptionKey storageKeySuffix ([], [], []) w1))"

text \<open>How the engine reads the recent-activity set back: \<open>rec?.length\<close>, split, Number.\<close>

definition read_history :: "cache_storage \<Rightarrow> string \<Rightarrow> jsnum list" where
  "read_history st historyKey =
     (case truthy (getItem st historyKey) of
        None \<Rightarrow> []
      | Some r \<Rightarrow> map Number (split_commas r))"

text \<open>What follows the try block on success: the history and the ciphertext cache.\<close>

definition sync_tail ::
  "platform \<Rightarrow> string \<Rightarrow> string option \<Rightarrow> sync_acc \<Rightarrow> world \<Rightarrow> utxo list outcome \<times> world" where
  "sync_tail P publicKey storageKeyEncryptionKey acc w =
     (case derive_suffix P publicKey storageKeyEncryptionKey of
        Inl e \<Rightarrow> (Thrown e, w)
      | Inr storageKeySuffix \<Rightarrow>
          (let historyKey = tradeHistory @ storageKeySuffix;
               recIndexes = read_history (adapter w) historyKey;
               history_indexes = snd (snd acc) @ recIndexes;
               unique_history_indexes = dedupe history_indexes;
               top20 = take 20 (sort_desc P unique_history_indexes);
               st1 = (if top20 = [] then adapter w
                      else setItem (adapter w) historyKey (join_commas (map num_toString top20)));
               valid_strings = dedupe (fst (snd acc));
               st2 = setItem st1 (LSK_ENCRYPTED_OUTPUTS P @ storageKeySuffix)
                       (JSON_stringify P valid_strings)
           in (Returned (fst acc), w\<lparr>adapter := st2\<rparr>)))"

text \<open>
  The attempt, the body of the async function that becomes the in-flight handle:
  try, finally (the handle is cleared), then the tail when the try did not throw.
\<close>

definition sync_attempt ::
  "platform \<Rightarrow> network \<Rightarrow> revision \<Rightarrow> string \<Rightarrow> string option \<Rightarrow> world \<Rightarrow>
   (utxo list outcome \<times> world) option" where
  "sync_attempt P net rv publicKey storageKeyEncryptionKey w =
     (case sync_try P net rv publicKey storageKeyEncryptionKey w of
        None \<Rightarrow> None
      | Some (r, w1) \<Rightarrow>
          (let w2 = w1\<lparr>getMyUtxosPromise := None\<rparr> in
           case r of
             Thrown e \<Rightarrow> Some (Thrown e, w2)
           | Returned acc \<Rightarrow> Some (sync_tail P publicKey storageKeyEncryptionKey acc w2)))"

text \<open>
  The check made before the handle is consulted (revision \<open>Chrome_direct\<close> only): with
  a session key and a handle outstanding, hashed-format ciphertext data without an
  encrypted-format counterpart discards the handle.
\<close>

definition precheck ::
  "platform \<Rightarrow> revision \<Rightarrow> string \<Rightarrow> string option \<Rightarrow> world \<Rightarrow> unit outcome \<times> world" where
  "precheck P rv publicKey storageKeyEncryptionKey w =
     (case rv of
        Adapter_only \<Rightarrow> (Returned (), w)
      | Chrome_direct \<Rightarrow>
          if truthy storageKeyEncryptionKey \<noteq> None \<and> getMyUtxosPromise w \<noteq> None then
            (case derive_suffix P publicKey None of
               Inl e \<Rightarrow> (Thrown e, w)
             | Inr hashedKeySuffix \<Rightarrow>
                 (case derive_suffix P publicKey storageKeyEncryptionKey of
                    Inl e \<Rightarrow> (Thrown e, w)
                  | Inr encryptedKeySuffix \<Rightarrow>
                      if hashedKeySuffix \<noteq> encryptedKeySuffix
                         \<and> getItem (adapter w) (LSK_ENCRYPTED_OUTPUTS P @ hashedKeySuffix) \<noteq> None
                         \<and> getItem (adapter w) (LSK_ENCRYPTED_OUTPUTS P @ encryptedKeySuffix) = None
                      then (Returned (), w\<lparr>getMyUtxosPromise := None\<rparr>)
                      else (Returned (), w)))
          else (Returned (), w))"

text \<open>
  What a call of getUtxos comes to when calls do not overlap: it fails before looking at
  the handle, or it attaches to the outstanding handle, or it stores a new handle and
  the attempt runs to its end.
\<close>

datatype sync_result = Failed_early error | Attached | Settled "utxo list outcome"

definition getUtxos ::
  "platform \<Rightarrow> network \<Rightarrow> revision \<Rightarrow> string \<Rightarrow> string option \<Rightarrow> world \<Rightarrow>
   (sync_result \<times> world) option" where
  "getUtxos P net rv publicKey storageKeyEncryptionKey w =
     (case precheck P rv publicKey storageKeyEncryptionKey w of
        (Thrown e, w0) \<Rightarrow> Some (Failed_early e, w0)
      | (Returned u, w0) \<Rightarrow>
          (case getMyUtxosPromise w0 of
             Some p \<Rightarrow> Some (Attached, w0)
           | None \<Rightarrow>
               (case sync_attempt P net rv publicKey storageKeyEncryptionKey
                       (w0\<lparr>getMyUtxosPromise := Some Pending\<rparr>) of
                  None \<Rightarrow> None
                | Some (r, w1) \<Rightarrow> Some (Settled r, w1))))"

text \<open>getBalanceFromUtxos: the sum of the amounts.\<close>

definition getBalanceFromUtxos :: "utxo list \<Rightarrow> nat" where
  "getBalanceFromUtxos utxos = foldl (\<lambda>total u. total + amount u) 0 utxos"

section \<open>Predicates and data used in the statements below\<close>

text \<open>
  The memo tables hold what the derivation computes: every hash entry is the hash of its
  key, and every encryption entry filed under \<open>w:k\<close>, for a wallet string \<open>w\<close> without
  a colon, is the encrypted name of \<open>w\<close> under \<open>k\<close>.
\<close>

definition caches_consistent :: "platform \<Rightarrow> key_caches \<Rightarrow> bool" where
  "caches_consistent P c \<longleftrightarrow>
     (\<forall>w h. publicKeyHashCache c w = Some h \<longrightarrow> h = base64url (btoa P (sha256 P (utf8 w)))) \<and>
     (\<forall>w k e. CHR '':'' \<notin> set w \<longrightarrow> publicKeyEncryptionCache c (w @ '':'' @ k) = Some e \<longrightarrow>
        encryptStorageKeyName P w k = Inr e)"

text \<open>A storage holding entries of two wallets, in the three formats.\<close>

definition demo_storage :: cache_storage where
  "demo_storage =
     [''fetch_offset9fhQBb1tellaWxxxxxWallet1abcd'' \<mapsto> ''300'',
      ''encrypted_outputs9fhQBb1tellaWxxxxxWallet1abcd'' \<mapsto> ''ab'',
      ''tradeHistory9fhQBb1tellaWxxxxxWallet1abcd'' \<mapsto> ''7,5'',
      ''fetch_offset9fhQBb1tellaWxxxxx'' \<mapsto> ''200'',
      ''tradeHistory9fhQBb1tellaWxxxxx'' \<mapsto> ''4'',
      ''tradeHistory9fhQBbWallet1'' \<mapsto> ''3'',
      ''fetch_offset9fhQBb2tellaWxxxxxWallet2abcd'' \<mapsto> ''900'']"

text \<open>A ciphertext that survives the first loop of decrypt_outputs.\<close>

definition decryptable :: "platform \<Rightarrow> string \<Rightarrow> bool" where
  "decryptable P c \<longleftrightarrow> c \<noteq> [] \<and> decryptUtxo P c \<noteq> None"

text \<open>The index a note carries after resolution against one entry of the reply.\<close>

fun resolve :: "utxo \<Rightarrow> jsval \<Rightarrow> utxo" where
  "resolve u (JNum n) = u\<lparr>index := n\<rparr>"
| "resolve u JOther = u"

text \<open>
  An outside to evaluate against: a feed of two pages, an index service that places the
  ciphertext of length \<open>l\<close> at position \<open>40 + l\<close>, a ledger call that fails three
  times and then knows one marker, and a clock.
\<close>

definition demo_net :: network where
  "demo_net =
     \<lparr>get_range = (\<lambda>t range_start range_end.
          if range_start = Some 0 then Range_object [''aa'', ''bad'', [], ''b''] True
          else Range_object [''ccc''] False),
      post_indices = (\<lambda>t cs. Indices_body (Arr (map (\<lambda>c. JNum (40 + int (length c))) cs))),
      getMultipleAccountsInfo = (\<lambda>t addrs.
          if t < 5 then None
          else Some (map (\<lambda>a. if a = ''nullifier1nn'' then Some (Account 1) else None) addrs)),
      Date_now = (\<lambda>t. 1000 + int t)\<rparr>"

definition demo_world :: world where
  "demo_world = \<lparr>adapter = Map.empty, chrome_local = None, tick = 0, getMyUtxosPromise = None\<rparr>"

text \<open>The marker addresses by position: entry \<open>j\<close> belongs to note \<open>j div 2\<close> (counted
  from \<open>k\<close>), with the seed given by the parity of \<open>j\<close>.\<close>

definition pda_at :: "platform \<Rightarrow> utxo list \<Rightarrow> nat \<Rightarrow> nat \<Rightarrow> nat \<times> string" where
  "pda_at P us k j =
     (k + j div 2,
      findProgramAddressSync P (if even j then ''nullifier0'' else ''nullifier1'')
        (getNullifier P (us ! (j div 2))))"

text \<open>The ledger behind \<open>demo_net\<close>, and two notes.\<close>

definition demo_ledger :: "string \<Rightarrow> account option" where
  "demo_ledger a = (if a = ''nullifier1nn'' then Some (Account 1) else None)"

definition note_aa :: utxo where
  "note_aa = \<lparr>amount = 2, index = 42, blinding = 0\<rparr>"

definition note_b :: utxo where
  "note_b = \<lparr>amount = 1, index = 41, blinding = 0\<rparr>"




text \<open>The larger of two offsets, one or both of which may be absent.\<close>

fun omax :: "int option \<Rightarrow> int option \<Rightarrow> int option" where
  "omax None b = b"
| "omax (Some a) None = Some a"
| "omax (Some a) (Some b) = Some (max a b)"



text \<open>Two worlds that differ in the adapter at most.\<close>

definition same_but_adapter :: "world \<Rightarrow> world \<Rightarrow> bool" where
  "same_but_adapter w' w \<longleftrightarrow>
     chrome_local w' = chrome_local w \<and> tick w' = tick w \<and>
     getMyUtxosPromise w' = getMyUtxosPromise w"



section \<open>Storage-key suffixes are deterministic\<close>

lemma colon_split:
  assumes "w @ CHR '':'' # k = w' @ CHR '':'' # k'" "CHR '':'' \<notin> set w" "CHR '':'' \<notin> set w'"
  shows "w = w' \<and> k = k'"
proof -
  have "takeWhile (\<lambda>c. c \<noteq> CHR '':'') (w @ CHR '':'' # k) = w"
    using assms(2) by (induction w) auto
  moreover have "takeWhile (\<lambda>c. c \<noteq> CHR '':'') (w' @ CHR '':'' # k') = w'"
    using assms(3) by (induction w') auto
  ultimately have "w = w'" using assms(1) by simp
  then show ?thesis using assms(1) by simp
qed

lemma consistent_empty: "caches_consistent P no_caches"
  by (simp add: caches_consistent_def no_caches_def)

lemma consistent_step:
  assumes "caches_consistent P c" "CHR '':'' \<notin> set w"
  shows "caches_consistent P (snd (localstorageKey P c w k))"
  using assms
  by (auto simp: caches_consistent_def localstorageKey_def hashPublicKey_def Let_def
      split: option.splits sum.splits dest: colon_split)

lemma consistent_result:
  assumes "caches_consistent P c" "CHR '':'' \<notin> set w"
  shows "fst (localstorageKey P c w k) = derive_suffix P w k"
  using assms
  by (auto simp: caches_consistent_def localstorageKey_def hashPublicKey_def Let_def
      derive_suffix_def no_caches_def
      split: option.splits sum.splits)

lemma consistent_run:
  assumes "caches_consistent P c" "list_all (\<lambda>(w, k). CHR '':'' \<notin> set w) calls"
  shows "caches_consistent P (run_calls P c calls)"
  using assms
  by (induction calls arbitrary: c) (auto simp: consistent_step)

lemma twice_in_a_row:
  "fst (localstorageKey P (snd (localstorageKey P c w k)) w k) = fst (localstorageKey P c w k)"
  by (auto simp: localstorageKey_def hashPublicKey_def Let_def split: option.splits sum.splits)

text \<open>The closed forms of the two generations of suffix.\<close>

lemma derive_suffix_hashed:
  "truthy k = None \<Longrightarrow>
   derive_suffix P w k = Inr (take 6 (PROGRAM_ID P) @ base64url (btoa P (sha256 P (utf8 w))))"
  by (simp add: derive_suffix_def localstorageKey_def hashPublicKey_def no_caches_def Let_def)

lemma derive_suffix_encrypted:
  "truthy k = Some ek \<Longrightarrow>
   derive_suffix P w k =
     (case encryptStorageKeyName P w ek of
        Inl e \<Rightarrow> Inl e
      | Inr encryptedKey \<Rightarrow> Inr (take 6 (PROGRAM_ID P) @ encryptedKey))"
  by (simp add: derive_suffix_def localstorageKey_def no_caches_def Let_def split: sum.splits)

text \<open>
  C9. localstorageKey is deterministic. Two calls in a row with the same wallet string
  and the same optional session key return the same result, whatever the memo tables
  hold when the first is made. And in a process that started with empty tables and has
  made any run of calls on wallet strings without a colon (base58 has none), a call
  returns what a fresh process returns: the hashed suffix is a function of the wallet
  string alone, the encrypted one of the wallet string and the session key alone, the
  IV being computed from the wallet string.
\<close>

theorem localstorageKey_deterministic:
  "fst (localstorageKey P (snd (localstorageKey P c w k)) w k) = fst (localstorageKey P c w k) \<and>
   (CHR '':'' \<notin> set w \<and> list_all (\<lambda>(w', k'). CHR '':'' \<notin> set w') calls \<longrightarrow>
      fst (localstorageKey P (run_calls P no_caches calls) w k) = derive_suffix P w k)"
  using twice_in_a_row consistent_result consistent_run consistent_empty by blast

lemma fixture_suffixes:
  "derive_suffix fixture ''Wallet1'' (Some ''abcd'') = Inr ''9fhQBb1tellaWxxxxxWallet1abcd''"
  "derive_suffix fixture ''Wallet1'' None = Inr ''9fhQBb1tellaWxxxxx''"
  "derive_suffix fixture ''Wallet2'' (Some ''abcd'') = Inr ''9fhQBb2tellaWxxxxxWallet2abcd''"
  "localstorageKeyOld fixture ''Wallet1'' = ''9fhQBbWallet1''"
  by code_simp+

lemma fixture_prefixes:
  "prefixes_apart fixture"
  "LSK_FETCH_OFFSET fixture = ''fetch_offset''"
  "LSK_ENCRYPTED_OUTPUTS fixture = ''encrypted_outputs''"
  "key_prefixes fixture = [''fetch_offset'', ''encrypted_outputs'', tradeHistory]"
    apply code_simp
  by (simp_all add: fixture_def key_prefixes_def)

theorem localstorageKey_deterministic_witness:
  "CHR '':'' \<notin> set ''Wallet1'' \<and>
   list_all (\<lambda>(w', k'). CHR '':'' \<notin> set w') [(''Wallet2'', Some ''abcd''), (''Wallet1'', None)] \<and>
   fst (localstorageKey fixture
          (run_calls fixture no_caches [(''Wallet2'', Some ''abcd''), (''Wallet1'', None)])
          ''Wallet1'' (Some ''abcd''))
     = Inr ''9fhQBb1tellaWxxxxxWallet1abcd''"
  using localstorageKey_deterministic [of fixture no_caches "''Wallet1''" "Some ''abcd''"
      "[(''Wallet2'', Some ''abcd''), (''Wallet1'', None)]"]
  by (simp add: fixture_suffixes)

section \<open>clearCache touches two keys of one wallet\<close>

lemma keys_apart:
  assumes "prefixes_apart P" "p \<in> set (key_prefixes P)" "q \<in> set (key_prefixes P)" "p @ s = q @ t"
  shows "p = q \<and> s = t"
proof -
  from assms(4) have "prefix p q \<or> prefix q p"
    by (metis append_eq_append_conv2 prefixI)
  with assms(1-3) have "p = q"
    by (auto simp: prefixes_apart_def list_all_iff)
  with assms(4) show ?thesis by simp
qed

lemma key_eq_iff:
  assumes "prefixes_apart P" "p \<in> set (key_prefixes P)" "q \<in> set (key_prefixes P)"
  shows "p @ s = q @ t \<longleftrightarrow> p = q \<and> s = t"
  using keys_apart [OF assms] by auto

lemma prefixes_mem:
  "LSK_FETCH_OFFSET P \<in> set (key_prefixes P)"
  "LSK_ENCRYPTED_OUTPUTS P \<in> set (key_prefixes P)"
  "tradeHistory \<in> set (key_prefixes P)"
  by (simp_all add: key_prefixes_def)

lemma prefixes_distinct:
  assumes "prefixes_apart P"
  shows "LSK_FETCH_OFFSET P \<noteq> LSK_ENCRYPTED_OUTPUTS P"
    "LSK_FETCH_OFFSET P \<noteq> tradeHistory" "LSK_ENCRYPTED_OUTPUTS P \<noteq> tradeHistory"
  using assms by (auto simp: prefixes_apart_def key_prefixes_def)

lemma clearCache_storage:
  assumes "clearCache P publicKey key st = Inr st'"
    and "derive_suffix P publicKey key = Inr sfx"
  shows "st' k =
     (if k = LSK_FETCH_OFFSET P @ sfx \<or> k = LSK_ENCRYPTED_OUTPUTS P @ sfx then None else st k)"
  using assms by (auto simp: clearCache_def removeItem_def)

lemma clearCache_hashed_storage:
  assumes "clearCache_hashed P publicKey st = Inr st'"
    and "derive_suffix P publicKey None = Inr sfx"
  shows "st' k =
     (if k = LSK_FETCH_OFFSET P @ sfx \<or> k = LSK_ENCRYPTED_OUTPUTS P @ sfx
         \<or> k = LSK_FETCH_OFFSET P @ localstorageKeyOld P publicKey
         \<or> k = LSK_ENCRYPTED_OUTPUTS P @ localstorageKeyOld P publicKey
         \<or> k = tradeHistory @ localstorageKeyOld P publicKey then None
      else st k)"
  using assms by (auto simp: clearCache_hashed_def removeItem_def localstorageKeyOld_def Let_def)

text \<open>
  C10. clearCache removes the fetch-offset entry and the ciphertext-cache entry under
  the wallet's current suffix and nothing else: the recent-activity entry under that
  suffix stays, and so does every entry under any other suffix (those of other
  wallets). The earlier index.ts also removes the wallet's three old-format entries;
  there too the recent-activity entry under the current (hashed) suffix and the entries
  under any suffix that is neither the wallet's hashed nor its old one stay. The key
  prefixes are taken not to overlap.
\<close>

theorem clearCache_frame:
  assumes apart: "prefixes_apart P"
  shows
  "(clearCache P publicKey key st = Inr st' \<and> derive_suffix P publicKey key = Inr sfx \<longrightarrow>
      (\<forall>k. st' k =
         (if k = LSK_FETCH_OFFSET P @ sfx \<or> k = LSK_ENCRYPTED_OUTPUTS P @ sfx then None
          else st k)) \<and>
      st' (tradeHistory @ sfx) = st (tradeHistory @ sfx) \<and>
      (\<forall>p \<in> set (key_prefixes P). \<forall>other. other \<noteq> sfx \<longrightarrow> st' (p @ other) = st (p @ other))) \<and>
   (clearCache_hashed P publicKey st = Inr st'' \<and> derive_suffix P publicKey None = Inr hsfx \<and>
    hsfx \<noteq> localstorageKeyOld P publicKey \<longrightarrow>
      (\<forall>k. st'' k =
         (if k = LSK_FETCH_OFFSET P @ hsfx \<or> k = LSK_ENCRYPTED_OUTPUTS P @ hsfx
             \<or> k = LSK_FETCH_OFFSET P @ localstorageKeyOld P publicKey
             \<or> k = LSK_ENCRYPTED_OUTPUTS P @ localstorageKeyOld P publicKey
             \<or> k = tradeHistory @ localstorageKeyOld P publicKey then None
          else st k)) \<and>
      st'' (tradeHistory @ hsfx) = st (tradeHistory @ hsfx) \<and>
      (\<forall>p \<in> set (key_prefixes P). \<forall>other.
         other \<noteq> hsfx \<and> other \<noteq> localstorageKeyOld P publicKey \<longrightarrow>
         st'' (p @ other) = st (p @ other)))"
proof (intro conjI impI ballI allI)
  assume h: "clearCache P publicKey key st = Inr st' \<and> derive_suffix P publicKey key = Inr sfx"
  note eq = clearCache_storage [OF conjunct1 [OF h] conjunct2 [OF h]]
  show "st' k =
         (if k = LSK_FETCH_OFFSET P @ sfx \<or> k = LSK_ENCRYPTED_OUTPUTS P @ sfx then None
          else st k)" for k
    by (rule eq)
  show "st' (tradeHistory @ sfx) = st (tradeHistory @ sfx)"
    by (simp add: eq key_eq_iff [OF apart] prefixes_mem prefixes_distinct [OF apart, symmetric])
  show "st' (p @ other) = st (p @ other)"
    if "p \<in> set (key_prefixes P)" "other \<noteq> sfx" for p other
    using that by (simp add: eq key_eq_iff [OF apart] prefixes_mem)
next
  assume h: "clearCache_hashed P publicKey st = Inr st'' \<and>
    derive_suffix P publicKey None = Inr hsfx \<and> hsfx \<noteq> localstorageKeyOld P publicKey"
  then have h1: "clearCache_hashed P publicKey st = Inr st''"
    and h2: "derive_suffix P publicKey None = Inr hsfx"
    and h3: "hsfx \<noteq> localstorageKeyOld P publicKey" by simp_all
  note eq = clearCache_hashed_storage [OF h1 h2]
  show "st'' k =
         (if k = LSK_FETCH_OFFSET P @ hsfx \<or> k = LSK_ENCRYPTED_OUTPUTS P @ hsfx
             \<or> k = LSK_FETCH_OFFSET P @ localstorageKeyOld P publicKey
             \<or> k = LSK_ENCRYPTED_OUTPUTS P @ localstorageKeyOld P publicKey
             \<or> k = tradeHistory @ localstorageKeyOld P publicKey then None
          else st k)" for k
    by (rule eq)
  show "st'' (tradeHistory @ hsfx) = st (tradeHistory @ hsfx)"
    using h3
    by (simp add: eq key_eq_iff [OF apart] prefixes_mem prefixes_distinct [OF apart, symmetric])
  show "st'' (p @ other) = st (p @ other)"
    if "p \<in> set (key_prefixes P)"
      "other \<noteq> hsfx \<and> other \<noteq> localstorageKeyOld P publicKey" for p other
    using that by (simp add: eq key_eq_iff [OF apart] prefixes_mem)
qed

theorem clearCache_frame_witness:
  "prefixes_apart fixture \<and>
   (\<exists>st' st''.
      clearCache fixture ''Wallet1'' (Some ''abcd'') demo_storage = Inr st' \<and>
      st' ''fetch_offset9fhQBb1tellaWxxxxxWallet1abcd'' = None \<and>
      st' ''encrypted_outputs9fhQBb1tellaWxxxxxWallet1abcd'' = None \<and>
      st' ''tradeHistory9fhQBb1tellaWxxxxxWallet1abcd'' = Some ''7,5'' \<and>
      st' ''fetch_offset9fhQBb2tellaWxxxxxWallet2abcd'' = Some ''900'' \<and>
      clearCache_hashed fixture ''Wallet1'' demo_storage = Inr st'' \<and>
      st'' ''fetch_offset9fhQBb1tellaWxxxxx'' = None \<and>
      st'' ''tradeHistory9fhQBbWallet1'' = None \<and>
      st'' ''tradeHistory9fhQBb1tellaWxxxxx'' = Some ''4'' \<and>
      st'' ''fetch_offset9fhQBb2tellaWxxxxxWallet2abcd'' = Some ''900'')"
proof -
  obtain a where a: "clearCache fixture ''Wallet1'' (Some ''abcd'') demo_storage = Inr a"
    by (simp add: clearCache_def fixture_suffixes)
  obtain b where b: "clearCache_hashed fixture ''Wallet1'' demo_storage = Inr b"
    by (simp add: clearCache_hashed_def fixture_suffixes Let_def)
  from clearCache_frame [OF fixture_prefixes(1), of "''Wallet1''" "Some ''abcd''" demo_storage a
      "''9fhQBb1tellaWxxxxxWallet1abcd''" b "''9fhQBb1tellaWxxxxx''"]
  show ?thesis
    using a b
    by (simp add: fixture_suffixes fixture_prefixes demo_storage_def tradeHistory_def)
qed

section \<open>decrypt_outputs works item by item\<close>

lemma survivors:
  "filter is_decrypted (map (decrypt_output P) outs) = map (decrypt_output P) (filter (decryptable P) outs)"
  by (induction outs) (auto simp: decrypt_output_def decryptable_def split: option.splits)

lemma survivor_shape:
  "decryptable P c \<Longrightarrow> \<exists>u. decryptUtxo P c = Some u \<and> decrypt_output P c = Decrypted u c"
  by (auto simp: decrypt_output_def decryptable_def)

lemma survivor_ciphertexts:
  "map encryptedOutput_of (map (decrypt_output P) (filter (decryptable P) outs)) = filter (decryptable P) outs"
  by (induction outs) (auto dest: survivor_shape)

lemma update_index_ciphertext: "encryptedOutput_of (update_index r v) = encryptedOutput_of r"
  by (cases "(r, v)" rule: update_index.cases) auto

lemma updated_ciphertexts:
  "length vs = length rs \<Longrightarrow>
   map encryptedOutput_of (map (\<lambda>(r, v). update_index r v) (zip rs vs)) = map encryptedOutput_of rs"
  by (induction rs arbitrary: vs) (auto simp: length_Suc_conv update_index_ciphertext)

lemma update_survivor: "update_index (Decrypted u c) v = Decrypted (resolve u v) c"
  by (cases v) auto

text \<open>What decrypt_outputs computes, in one equation.\<close>

lemma decrypt_outputs_eq:
  "decrypt_outputs P net outs w =
     (let cs = filter (decryptable P) outs in
      if cs = [] then (Returned [], w)
      else (case post_indices net (tick w) cs of
              Indices_body (Arr indices) \<Rightarrow>
                if length indices = length cs
                then (Returned (map (\<lambda>(r, v). update_index r v)
                                  (zip (map (decrypt_output P) cs) indices)),
                      w\<lparr>tick := Suc (tick w)\<rparr>)
                else (Thrown IndicesError, w\<lparr>tick := Suc (tick w)\<rparr>)
            | Indices_body Missing \<Rightarrow> (Thrown IndicesError, w\<lparr>tick := Suc (tick w)\<rparr>)
            | Indices_body Not_array \<Rightarrow> (Thrown IndicesError, w\<lparr>tick := Suc (tick w)\<rparr>)
            | Indices_throws \<Rightarrow> (Thrown HttpError, w\<lparr>tick := Suc (tick w)\<rparr>)))"
  unfolding decrypt_outputs_def survivors Let_def survivor_ciphertexts
  by (simp split: indices_reply.splits indices_field.splits)

lemma decrypt_outputs_skips:
  "\<not> decryptable P bad \<Longrightarrow>
   decrypt_outputs P net (xs @ bad # ys) w = decrypt_outputs P net (xs @ ys) w"
  by (simp add: decrypt_outputs_eq)

lemma decrypt_outputs_returned:
  assumes "decrypt_outputs P net outs w = (Returned results, w')"
    and "filter (decryptable P) outs \<noteq> []"
  shows "\<exists>indices. post_indices net (tick w) (filter (decryptable P) outs) = Indices_body (Arr indices)
           \<and> length indices = length (filter (decryptable P) outs)
           \<and> results = map (\<lambda>(r, v). update_index r v)
                         (zip (map (decrypt_output P) (filter (decryptable P) outs)) indices)"
  using assms
  by (auto simp: decrypt_outputs_eq Let_def split: indices_reply.splits indices_field.splits if_splits)

lemma decrypt_outputs_entry:
  assumes "length indices = length cs" "list_all (decryptable P) cs" "i < length cs"
  shows "\<exists>u. decryptUtxo P (cs ! i) = Some u \<and>
           map (\<lambda>(r, v). update_index r v) (zip (map (decrypt_output P) cs) indices) ! i
             = Decrypted (resolve u (indices ! i)) (cs ! i)"
proof -
  from assms(2,3) have "decryptable P (cs ! i)" by (simp add: list_all_length)
  then obtain u where u: "decryptUtxo P (cs ! i) = Some u" "decrypt_output P (cs ! i) = Decrypted u (cs ! i)"
    using survivor_shape by blast
  then show ?thesis using assms(1,3) by (auto simp: update_survivor)
qed

text \<open>
  C5. decrypt_outputs works item by item. A ciphertext that is empty or fails to decrypt
  changes nothing for the others: the call on a batch with it equals the call on the
  batch without it. When the call returns, the results are the decryptable ciphertexts
  of the batch in input order, each with its note; the note of the i-th result is the
  decrypted note with its index replaced by the i-th entry of the index reply when that
  entry is a number (\<open>resolve\<close>; an entry that is not a number leaves the index as
  decrypted). And the call does return whenever the reply is an array with one entry
  per surviving ciphertext.
\<close>

theorem decrypt_outputs_per_item:
  "(\<not> decryptable P bad \<longrightarrow>
      decrypt_outputs P net (xs @ bad # ys) w = decrypt_outputs P net (xs @ ys) w) \<and>
   (decrypt_outputs P net outs w = (Returned results, w') \<longrightarrow>
      map encryptedOutput_of results = filter (decryptable P) outs \<and>
      (filter (decryptable P) outs \<noteq> [] \<longrightarrow>
        (\<exists>indices. post_indices net (tick w) (filter (decryptable P) outs) = Indices_body (Arr indices) \<and>
           length indices = length results \<and>
           (\<forall>i < length results. \<exists>u.
              decryptUtxo P (filter (decryptable P) outs ! i) = Some u \<and>
              results ! i = Decrypted (resolve u (indices ! i)) (filter (decryptable P) outs ! i))))) \<and>
   (post_indices net (tick w) (filter (decryptable P) outs) = Indices_body (Arr indices') \<and>
    length indices' = length (filter (decryptable P) outs) \<longrightarrow>
      (\<exists>results'' w''. decrypt_outputs P net outs w = (Returned results'', w'')))"
proof (intro conjI impI)
  assume "\<not> decryptable P bad"
  then show "decrypt_outputs P net (xs @ bad # ys) w = decrypt_outputs P net (xs @ ys) w"
    by (rule decrypt_outputs_skips)
next
  assume r: "decrypt_outputs P net outs w = (Returned results, w')"
  show "map encryptedOutput_of results = filter (decryptable P) outs"
  proof (cases "filter (decryptable P) outs = []")
    case True
    with r show ?thesis by (simp add: decrypt_outputs_eq)
  next
    case False
    from decrypt_outputs_returned [OF r False] obtain indices where
      i2: "length indices = length (filter (decryptable P) outs)" and
      i3: "results = map (\<lambda>(r, v). update_index r v)
             (zip (map (decrypt_output P) (filter (decryptable P) outs)) indices)"
      by blast
    have "map encryptedOutput_of results =
          map encryptedOutput_of (map (decrypt_output P) (filter (decryptable P) outs))"
      unfolding i3 by (rule updated_ciphertexts) (simp add: i2)
    then show ?thesis by (simp only: survivor_ciphertexts)
  qed
next
  assume r: "decrypt_outputs P net outs w = (Returned results, w')"
    and ne: "filter (decryptable P) outs \<noteq> []"
  let ?cs = "filter (decryptable P) outs"
  from decrypt_outputs_returned [OF r ne] obtain indices where
    i1: "post_indices net (tick w) ?cs = Indices_body (Arr indices)" and
    i2: "length indices = length ?cs" and
    i3: "results = map (\<lambda>(r, v). update_index r v) (zip (map (decrypt_output P) ?cs) indices)"
    by blast
  have all: "list_all (decryptable P) ?cs" by (simp add: list_all_iff)
  have len: "length results = length ?cs" using i2 i3 by simp
  have "\<forall>i < length results. \<exists>u.
          decryptUtxo P (?cs ! i) = Some u \<and>
          results ! i = Decrypted (resolve u (indices ! i)) (?cs ! i)"
    using decrypt_outputs_entry [OF i2 all] len unfolding i3 by simp
  with i1 i2 len show "\<exists>indices. post_indices net (tick w) ?cs = Indices_body (Arr indices) \<and>
           length indices = length results \<and>
           (\<forall>i < length results. \<exists>u.
              decryptUtxo P (?cs ! i) = Some u \<and>
              results ! i = Decrypted (resolve u (indices ! i)) (?cs ! i))"
    by auto
next
  assume "post_indices net (tick w) (filter (decryptable P) outs) = Indices_body (Arr indices') \<and>
    length indices' = length (filter (decryptable P) outs)"
  then show "\<exists>results'' w''. decrypt_outputs P net outs w = (Returned results'', w'')"
    by (simp add: decrypt_outputs_eq Let_def)
qed

lemma fixture_decrypt:
  "decryptUtxo fixture ''aa'' = Some \<lparr>amount = 2, index = 0, blinding = 0\<rparr>"
  "decryptUtxo fixture ''b'' = Some \<lparr>amount = 1, index = 0, blinding = 0\<rparr>"
  "decryptUtxo fixture ''ccc'' = Some \<lparr>amount = 3, index = 0, blinding = 0\<rparr>"
  "decryptUtxo fixture ''bad'' = None"
  by (simp_all add: fixture_def)

lemma fixture_decryptable:
  "decryptable fixture ''aa''" "decryptable fixture ''b''" "decryptable fixture ''ccc''"
  "\<not> decryptable fixture ''bad''" "\<not> decryptable fixture []"
  by (simp_all add: decryptable_def fixture_decrypt)

lemma demo_indices:
  "post_indices demo_net t cs = Indices_body (Arr (map (\<lambda>c. JNum (40 + int (length c))) cs))"
  by (simp add: demo_net_def)

lemma demo_decrypt_outputs:
  "decrypt_outputs fixture demo_net [''aa'', ''bad'', [], ''b''] demo_world =
     (Returned [Decrypted \<lparr>amount = 2, index = 42, blinding = 0\<rparr> ''aa'',
                Decrypted \<lparr>amount = 1, index = 41, blinding = 0\<rparr> ''b''],
      demo_world\<lparr>tick := 1\<rparr>)"
  by (simp add: decrypt_outputs_eq fixture_decryptable demo_indices decrypt_output_def
      fixture_decrypt demo_world_def)

theorem decrypt_outputs_per_item_witness:
  "\<not> decryptable fixture ''bad'' \<and>
   decrypt_outputs fixture demo_net [''aa'', ''bad'', [], ''b''] demo_world =
     (Returned [Decrypted \<lparr>amount = 2, index = 42, blinding = 0\<rparr> ''aa'',
                Decrypted \<lparr>amount = 1, index = 41, blinding = 0\<rparr> ''b''],
      demo_world\<lparr>tick := 1\<rparr>) \<and>
   decrypt_outputs fixture demo_net ([''aa''] @ ''bad'' # [[], ''b'']) demo_world =
     decrypt_outputs fixture demo_net ([''aa''] @ [[], ''b'']) demo_world \<and>
   filter (decryptable fixture) [''aa'', ''bad'', [], ''b''] = [''aa'', ''b''] \<and>
   post_indices demo_net (tick demo_world) [''aa'', ''b''] = Indices_body (Arr [JNum 42, JNum 41])"
  using decrypt_outputs_per_item [of fixture "''bad''" demo_net "[''aa'']" "[[], ''b'']" demo_world
      "[''aa'', ''bad'', [], ''b'']"
      "[Decrypted \<lparr>amount = 2, index = 42, blinding = 0\<rparr> ''aa'',
        Decrypted \<lparr>amount = 1, index = 41, blinding = 0\<rparr> ''b'']"
      "demo_world\<lparr>tick := 1\<rparr>" "[JNum 42, JNum 41]"]
  by (simp add: fixture_decryptable demo_decrypt_outputs demo_indices)

section \<open>The spent check\<close>

lemma flag_loop_length:
  "length (foldl (\<lambda>flags i. if c i then flags[f i := True] else flags) init js) = length init"
  by (induction js arbitrary: init) auto

lemma set_flag_nth: "i < length init \<Longrightarrow> init[k := True] ! i \<longleftrightarrow> init ! i \<or> k = i"
  by (cases "k = i") auto

lemma flag_loop_nth:
  "i < length init \<Longrightarrow>
   foldl (\<lambda>flags j. if c j then flags[f j := True] else flags) init js ! i
     \<longleftrightarrow> init ! i \<or> (\<exists>j \<in> set js. c j \<and> f j = i)"
proof (induction js arbitrary: init)
  case Nil
  then show ?case by simp
next
  case (Cons j js)
  show ?case
  proof (cases "c j")
    case True
    have "i < length (init[f j := True])" using Cons.prems by simp
    from Cons.IH [OF this] show ?thesis
      using True Cons.prems by (auto simp: set_flag_nth)
  next
    case False
    with Cons.IH [OF Cons.prems] show ?thesis by auto
  qed
qed

lemma spentFlags_length: "length (spentFlags_of n allPDAs results) = n"
  by (simp add: spentFlags_of_def flag_loop_length)

lemma spentFlags_nth:
  "i < n \<Longrightarrow>
   spentFlags_of n allPDAs results ! i
     \<longleftrightarrow> (\<exists>j < length allPDAs. not_null_at results j \<and> fst (allPDAs ! j) = i)"
  by (auto simp: spentFlags_of_def flag_loop_nth)

lemma pdas_from_length:
  "length (concat (map (\<lambda>(i, u).
       [(i, findProgramAddressSync P ''nullifier0'' (getNullifier P u)),
        (i, findProgramAddressSync P ''nullifier1'' (getNullifier P u))]) (enumerate k us)))
     = 2 * length us"
  by (induction us arbitrary: k) auto

lemma pdas_from_nth:
  "j < 2 * length us \<Longrightarrow>
   concat (map (\<lambda>(i, u).
       [(i, findProgramAddressSync P ''nullifier0'' (getNullifier P u)),
        (i, findProgramAddressSync P ''nullifier1'' (getNullifier P u))]) (enumerate k us)) ! j
     = pda_at P us k j"
proof (induction us arbitrary: k j)
  case Nil
  then show ?case by simp
next
  case (Cons u us)
  consider "j = 0" | "j = 1" | "j \<ge> 2" by linarith
  then show ?case
  proof cases
    case 1
    then show ?thesis by (simp add: pda_at_def)
  next
    case 2
    then show ?thesis by (simp add: pda_at_def)
  next
    case 3
    then obtain j' where j': "j = Suc (Suc j')" by (metis add_2_eq_Suc le_Suc_ex)
    with Cons.prems have "j' < 2 * length us" by simp
    from Cons.IH [OF this, of "Suc k"] show ?thesis
      by (simp add: j' pda_at_def)
  qed
qed

lemma allPDAs_length: "length (allPDAs_of P utxos) = 2 * length utxos"
  by (simp add: allPDAs_of_def pdas_from_length)

lemma allPDAs_nth: "j < 2 * length utxos \<Longrightarrow> allPDAs_of P utxos ! j = pda_at P utxos 0 j"
  by (simp add: allPDAs_of_def pdas_from_nth)

lemma ledger_flags:
  assumes "i < length utxos"
  shows "spentFlags_of (length utxos) (allPDAs_of P utxos) (map ledger (map snd (allPDAs_of P utxos))) ! i
     \<longleftrightarrow> ledger (findProgramAddressSync P ''nullifier0'' (getNullifier P (utxos ! i))) \<noteq> None
        \<or> ledger (findProgramAddressSync P ''nullifier1'' (getNullifier P (utxos ! i))) \<noteq> None"
    (is "?flag \<longleftrightarrow> ?m0 \<or> ?m1")
proof
  assume ?flag
  then obtain j where j: "j < 2 * length utxos"
      "not_null_at (map ledger (map snd (allPDAs_of P utxos))) j" "fst (allPDAs_of P utxos ! j) = i"
    using assms by (auto simp: spentFlags_nth allPDAs_length)
  from j(1,3) have d: "j div 2 = i" by (simp add: allPDAs_nth pda_at_def)
  from j(1,2) have "ledger (snd (allPDAs_of P utxos ! j)) \<noteq> None"
    by (simp add: not_null_at_def allPDAs_length)
  with j(1) d show "?m0 \<or> ?m1"
    by (cases "even j") (auto simp: allPDAs_nth pda_at_def)
next
  assume m: "?m0 \<or> ?m1"
  have r: "\<exists>j < length (allPDAs_of P utxos).
      not_null_at (map ledger (map snd (allPDAs_of P utxos))) j \<and> fst (allPDAs_of P utxos ! j) = i"
  proof (cases ?m0)
    case True
    have "2 * i < 2 * length utxos" using assms by simp
    with True show ?thesis
      by (intro exI [of _ "2 * i"]) (simp add: allPDAs_length allPDAs_nth pda_at_def not_null_at_def)
  next
    case False
    with m have ?m1 by simp
    moreover have "2 * i + 1 < 2 * length utxos" using assms by simp
    ultimately show ?thesis
      by (intro exI [of _ "2 * i + 1"]) (simp add: allPDAs_length allPDAs_nth pda_at_def not_null_at_def)
  qed
  then show ?flag using assms by (simp add: spentFlags_nth)
qed

text \<open>The retry loop returns as soon as one attempt succeeds.\<close>

lemma areUtxosSpent_retry:
  assumes "\<forall>j < k. getMultipleAccountsInfo net (t + j) (map snd (allPDAs_of P utxos)) = None"
    and "getMultipleAccountsInfo net (t + k) (map snd (allPDAs_of P utxos)) = Some results"
  shows "areUtxosSpent P net utxos t
           = Some (spentFlags_of (length utxos) (allPDAs_of P utxos) results, Suc (t + k))"
  using assms
proof (induction k arbitrary: t)
  case 0
  then show ?case by (subst areUtxosSpent.simps) simp
next
  case (Suc k)
  from Suc.prems(1) have first: "getMultipleAccountsInfo net t (map snd (allPDAs_of P utxos)) = None"
    by (metis add.right_neutral zero_less_Suc)
  have rest: "\<forall>j < k. getMultipleAccountsInfo net (Suc t + j) (map snd (allPDAs_of P utxos)) = None"
    using Suc.prems(1) by (metis Suc_less_eq add_Suc_shift)
  have last: "getMultipleAccountsInfo net (Suc t + k) (map snd (allPDAs_of P utxos)) = Some results"
    using Suc.prems(2) by simp
  have "areUtxosSpent P net utxos t = areUtxosSpent P net utxos (Suc t)"
    by (subst areUtxosSpent.simps) (simp add: first)
  with Suc.IH [OF rest last] show ?case by simp
qed

lemma select_unspent_set:
  "set (select_unspent nonZero spentFlags)
     = {nonZero ! i | i. i < length nonZero \<and> \<not> (i < length spentFlags \<and> spentFlags ! i)}"
  by (auto simp: select_unspent_def)

text \<open>
  C1. areUtxosSpent, when the ledger call fails \<open>k\<close> times and then answers with the
  accounts of the requested addresses, returns one flag per note, in the order of the
  notes; the flag of note \<open>i\<close> is true exactly when the ledger holds an account at its
  nullifier0 address or at its nullifier1 address. A note selected as unspent from
  these flags (the loop of getUtxos over the notes of positive amount) has neither
  account: a note with a marker is left out.
\<close>

theorem areUtxosSpent_flags:
  assumes fails: "\<forall>j < k. getMultipleAccountsInfo net (t + j) (map snd (allPDAs_of P utxos)) = None"
    and answer: "getMultipleAccountsInfo net (t + k) (map snd (allPDAs_of P utxos))
                   = Some (map ledger (map snd (allPDAs_of P utxos)))"
  shows "\<exists>flags. areUtxosSpent P net utxos t = Some (flags, Suc (t + k)) \<and>
           length flags = length utxos \<and>
           (\<forall>i < length utxos.
              flags ! i \<longleftrightarrow>
                ledger (findProgramAddressSync P ''nullifier0'' (getNullifier P (utxos ! i))) \<noteq> None
                \<or> ledger (findProgramAddressSync P ''nullifier1'' (getNullifier P (utxos ! i))) \<noteq> None) \<and>
           (\<forall>nonZero. map fst nonZero = utxos \<longrightarrow>
              (\<forall>(u, c) \<in> set (select_unspent nonZero flags).
                 ledger (findProgramAddressSync P ''nullifier0'' (getNullifier P u)) = None
                 \<and> ledger (findProgramAddressSync P ''nullifier1'' (getNullifier P u)) = None))"
proof -
  let ?flags = "spentFlags_of (length utxos) (allPDAs_of P utxos)
                  (map ledger (map snd (allPDAs_of P utxos)))"
  have run: "areUtxosSpent P net utxos t = Some (?flags, Suc (t + k))"
    by (rule areUtxosSpent_retry [OF fails answer])
  have len: "length ?flags = length utxos" by (rule spentFlags_length)
  have nth: "\<forall>i < length utxos.
      ?flags ! i \<longleftrightarrow>
        ledger (findProgramAddressSync P ''nullifier0'' (getNullifier P (utxos ! i))) \<noteq> None
        \<or> ledger (findProgramAddressSync P ''nullifier1'' (getNullifier P (utxos ! i))) \<noteq> None"
    using ledger_flags by blast
  have sel: "\<forall>nonZero. map fst nonZero = utxos \<longrightarrow>
      (\<forall>(u, c) \<in> set (select_unspent nonZero ?flags).
         ledger (findProgramAddressSync P ''nullifier0'' (getNullifier P u)) = None
         \<and> ledger (findProgramAddressSync P ''nullifier1'' (getNullifier P u)) = None)"
  proof (intro allI impI)
    fix nonZero :: "(utxo \<times> string) list"
    assume m: "map fst nonZero = utxos"
    then have l: "length nonZero = length utxos" by auto
    show "\<forall>(u, c) \<in> set (select_unspent nonZero ?flags).
         ledger (findProgramAddressSync P ''nullifier0'' (getNullifier P u)) = None
         \<and> ledger (findProgramAddressSync P ''nullifier1'' (getNullifier P u)) = None"
    proof (clarify)
      fix u c assume "(u, c) \<in> set (select_unspent nonZero ?flags)"
      then obtain i where i: "i < length nonZero" "nonZero ! i = (u, c)" "\<not> ?flags ! i"
        using l len by (auto simp: select_unspent_set)
      from i(1,2) m have "utxos ! i = u" by (metis fst_conv nth_map)
      with i(1,3) l nth
      show "ledger (findProgramAddressSync P ''nullifier0'' (getNullifier P u)) = None
         \<and> ledger (findProgramAddressSync P ''nullifier1'' (getNullifier P u)) = None"
        by auto
    qed
  qed
  from run len nth sel show ?thesis by blast
qed

lemma demo_pdas:
  "map snd (allPDAs_of fixture [note_aa, note_b])
     = [''nullifier0nn'', ''nullifier1nn'', ''nullifier0n'', ''nullifier1n'']"
  by (simp add: allPDAs_of_def fixture_def note_aa_def note_b_def numeral_2_eq_2)

lemma demo_ledger_calls:
  "getMultipleAccountsInfo demo_net t addrs = (if t < 5 then None else Some (map demo_ledger addrs))"
  by (auto simp: demo_net_def demo_ledger_def)

theorem areUtxosSpent_flags_witness:
  "getMultipleAccountsInfo demo_net 3 (map snd (allPDAs_of fixture [note_aa, note_b])) = None \<and>
   getMultipleAccountsInfo demo_net 4 (map snd (allPDAs_of fixture [note_aa, note_b])) = None \<and>
   getMultipleAccountsInfo demo_net 5 (map snd (allPDAs_of fixture [note_aa, note_b]))
     = Some [None, Some (Account 1), None, None] \<and>
   (\<exists>flags. areUtxosSpent fixture demo_net [note_aa, note_b] 3 = Some (flags, 6) \<and>
      length flags = 2 \<and> flags ! 0 \<and> \<not> flags ! 1 \<and>
      (\<exists>i < 2. [(note_aa, ''aa''), (note_b, ''b'')] ! i \<notin>
          set (select_unspent [(note_aa, ''aa''), (note_b, ''b'')] flags)))"
proof -
  have fails: "\<forall>j < 2. getMultipleAccountsInfo demo_net (3 + j)
      (map snd (allPDAs_of fixture [note_aa, note_b])) = None"
    by (simp add: demo_ledger_calls)
  have answer: "getMultipleAccountsInfo demo_net (3 + 2)
      (map snd (allPDAs_of fixture [note_aa, note_b]))
        = Some (map demo_ledger (map snd (allPDAs_of fixture [note_aa, note_b])))"
    by (simp add: demo_ledger_calls)
  have nul: "getNullifier fixture note_aa = ''nn''" "getNullifier fixture note_b = ''n''"
    "findProgramAddressSync fixture = (\<lambda>seed nullifier. seed @ nullifier)"
    by (simp_all add: fixture_def note_aa_def note_b_def numeral_2_eq_2)
  from areUtxosSpent_flags [OF fails answer] obtain flags where
    f: "areUtxosSpent fixture demo_net [note_aa, note_b] (3::nat) = Some (flags, Suc (3 + 2))"
      "length flags = length [note_aa, note_b]"
      "\<forall>i < length [note_aa, note_b]. flags ! i \<longleftrightarrow>
          demo_ledger (findProgramAddressSync fixture ''nullifier0''
             (getNullifier fixture ([note_aa, note_b] ! i))) \<noteq> None
          \<or> demo_ledger (findProgramAddressSync fixture ''nullifier1''
             (getNullifier fixture ([note_aa, note_b] ! i))) \<noteq> None"
      "\<forall>nonZero. map fst nonZero = [note_aa, note_b] \<longrightarrow>
              (\<forall>(u, c) \<in> set (select_unspent nonZero flags).
                 demo_ledger (findProgramAddressSync fixture ''nullifier0'' (getNullifier fixture u)) = None
                 \<and> demo_ledger (findProgramAddressSync fixture ''nullifier1'' (getNullifier fixture u)) = None)"
    by blast
  from f(3) have f0: "flags ! 0" and f1: "\<not> flags ! 1"
    by (simp_all add: nul demo_ledger_def)
  have "(note_aa, ''aa'') \<notin> set (select_unspent [(note_aa, ''aa''), (note_b, ''b'')] flags)"
  proof
    assume "(note_aa, ''aa'') \<in> set (select_unspent [(note_aa, ''aa''), (note_b, ''b'')] flags)"
    with f(4) [rule_format, of "[(note_aa, ''aa''), (note_b, ''b'')]" "(note_aa, ''aa'')"]
    show False by (simp add: nul demo_ledger_def)
  qed
  then have ex: "\<exists>i < 2. [(note_aa, ''aa''), (note_b, ''b'')] ! i \<notin>
          set (select_unspent [(note_aa, ''aa''), (note_b, ''b'')] flags)"
    by (intro exI [of _ 0]) simp
  show ?thesis
    using f(1,2) f0 f1 ex by (simp add: demo_ledger_calls demo_pdas demo_ledger_def)
qed

section \<open>Numbers and their decimal strings\<close>

lemma digit_of_digit_char: "d < 10 \<Longrightarrow> digit_of (digit_char d) = Some d"
  by (simp add: digit_of_def digit_char_def Let_def)

lemma digit_of_minus: "digit_of CHR ''-'' = None"
  by (simp add: digit_of_def)

lemma digit_of_comma: "digit_of CHR '','' = None"
  by (simp add: digit_of_def)

lemma digits_value_snoc:
  "digits_value acc (cs @ [c]) =
     (case digits_value acc cs of
        None \<Rightarrow> None
      | Some v \<Rightarrow> (case digit_of c of None \<Rightarrow> None | Some d \<Rightarrow> Some (10 * v + d)))"
  by (induction cs arbitrary: acc) (auto split: option.splits)

lemma digits_value_show_nat: "digits_value 0 (show_nat n) = Some n"
proof (induction n rule: show_nat.induct)
  case (1 n)
  show ?case
  proof (cases "n < 10")
    case True
    then show ?thesis by (subst show_nat.simps) (simp add: digit_of_digit_char)
  next
    case False
    have "n mod 10 < 10" by simp
    with False "1.IH" show ?thesis
      by (subst show_nat.simps) (simp add: digits_value_snoc digit_of_digit_char)
  qed
qed

lemma show_nat_digits: "c \<in> set (show_nat n) \<Longrightarrow> digit_of c \<noteq> None"
proof (induction n rule: show_nat.induct)
  case (1 n)
  show ?case
  proof (cases "n < 10")
    case True
    with "1.prems" show ?thesis
      by (subst (asm) show_nat.simps) (simp add: digit_of_digit_char)
  next
    case False
    have "n mod 10 < 10" by simp
    with False "1.prems" "1.IH" show ?thesis
      by (subst (asm) show_nat.simps) (auto simp: digit_of_digit_char)
  qed
qed

lemma show_nat_not_Nil: "show_nat n \<noteq> []"
  by (subst show_nat.simps) simp

lemma show_nat_no_minus: "CHR ''-'' \<notin> set (show_nat n)"
  using show_nat_digits digit_of_minus by blast

lemma toString_not_Nil: "toString i \<noteq> []"
  by (simp add: toString_def show_nat_not_Nil)

lemma toString_no_comma: "CHR '','' \<notin> set (toString i)"
  using show_nat_digits [of "CHR '',''"] digit_of_comma by (auto simp: toString_def)

lemma Number_toString: "Number (toString i) = Some i"
proof (cases "i < 0")
  case True
  then show ?thesis
    by (simp add: Number_def toString_def show_nat_not_Nil digits_value_show_nat)
next
  case False
  obtain c cs where s: "show_nat (nat i) = c # cs"
    using show_nat_not_Nil by (cases "show_nat (nat i)") auto
  then have "c \<noteq> CHR ''-''" using show_nat_no_minus [of "nat i"] by auto
  moreover have "digits_value 0 (c # cs) = Some (nat i)"
    using digits_value_show_nat [of "nat i"] s by simp
  ultimately show ?thesis using False s by (simp add: Number_def toString_def)
qed

lemma Number_num_toString: "Number (num_toString (Some i)) = Some i"
  by (simp add: num_toString_def Number_toString)

section \<open>split and join\<close>

lemma split_commas_not_Nil: "split_commas s \<noteq> []"
  by (induction s) (auto split: list.splits)

lemma split_commas_plain: "CHR '','' \<notin> set x \<Longrightarrow> split_commas x = [x]"
  by (induction x) auto

lemma split_commas_field:
  "CHR '','' \<notin> set x \<Longrightarrow> split_commas (x @ CHR '','' # rest) = x # split_commas rest"
  by (induction x) auto

lemma split_join:
  "xs \<noteq> [] \<Longrightarrow> \<forall>x \<in> set xs. CHR '','' \<notin> set x \<Longrightarrow> split_commas (join_commas xs) = xs"
proof (induction xs rule: join_commas.induct)
  case 1
  then show ?case by simp
next
  case (2 x)
  then show ?case by (simp add: split_commas_plain)
next
  case (3 x y ys)
  then show ?case by (simp add: split_commas_field)
qed

lemma join_commas_Nil_iff: "join_commas xs = [] \<longleftrightarrow> xs = [] \<or> xs = [[]]"
  by (induction xs rule: join_commas.induct) auto

text \<open>The persisted form of a non-empty list of integers reads back as that list.\<close>

lemma history_roundtrip:
  assumes "is \<noteq> []"
  shows "map Number (split_commas (join_commas (map num_toString (map Some is)))) = map Some is"
proof -
  have "split_commas (join_commas (map num_toString (map Some is))) = map num_toString (map Some is)"
    using assms by (intro split_join) (auto simp: num_toString_def toString_no_comma)
  then show ?thesis by (simp add: Number_num_toString comp_def)
qed

lemma history_not_empty:
  assumes "is \<noteq> []"
  shows "join_commas (map num_toString (map Some is)) \<noteq> []"
  using assms
  by (cases "is") (auto simp: join_commas_Nil_iff num_toString_def toString_not_Nil)

section \<open>Sets as arrays: dedupe, sort, the twenty largest\<close>

lemma set_dedupe [simp]: "set (dedupe xs) = set xs"
  by (simp add: dedupe_def)

lemma distinct_dedupe [simp]: "distinct (dedupe xs)"
  by (simp add: dedupe_def)

lemma dedupe_distinct: "distinct xs \<Longrightarrow> dedupe xs = xs"
  by (simp add: dedupe_def distinct_remdups_id)

lemma remdups_map_Some: "remdups (map Some xs) = map Some (remdups xs)"
  by (induction xs) auto

lemma dedupe_map_Some: "dedupe (map Some xs) = map Some (dedupe xs)"
  by (simp add: dedupe_def rev_map remdups_map_Some)

lemma sort_desc_numbers: "sort_desc P (map Some xs) = map Some (rev (sort xs))"
  by (auto simp: sort_desc_def comp_def)

lemma desc_sorted: "sorted_wrt (\<lambda>x y. x > y) (rev (sort xs))" if "distinct xs" for xs :: "int list"
proof -
  have "sorted_wrt (<) (sort xs)"
    using that by (simp add: strict_sorted_iff)
  then show ?thesis by (simp add: sorted_wrt_rev)
qed

lemma largest_taken:
  fixes xs :: "int list" and n :: nat
  assumes "distinct xs"
  defines "tops \<equiv> take n (rev (sort xs))"
  shows "length tops = min n (length xs)"
    and "distinct tops"
    and "set tops \<subseteq> set xs"
    and "\<forall>x \<in> set tops. \<forall>y \<in> set xs - set tops. y < x"
    and "sorted_wrt (\<lambda>x y. x > y) tops"
proof -
  let ?zs = "rev (sort xs)"
  have d: "distinct ?zs" using assms(1) by simp
  have s: "sorted_wrt (\<lambda>x y. x > y) ?zs" by (rule desc_sorted [OF assms(1)])
  show "length tops = min n (length xs)" by (simp add: tops_def min.commute)
  show "distinct tops" using d by (simp add: tops_def)
  show "set tops \<subseteq> set xs" using set_take_subset [of n ?zs] by (simp add: tops_def)
  have split: "?zs = take n ?zs @ drop n ?zs" by simp
  have rest: "set xs - set tops \<subseteq> set (drop n ?zs)"
  proof
    fix y assume "y \<in> set xs - set tops"
    then have "y \<in> set ?zs" "y \<notin> set (take n ?zs)" by (simp_all add: tops_def)
    then show "y \<in> set (drop n ?zs)" by (metis Un_iff append_take_drop_id set_append)
  qed
  have "sorted_wrt (\<lambda>x y. x > y) (take n ?zs @ drop n ?zs)" using s by simp
  then have "\<forall>x \<in> set (take n ?zs). \<forall>y \<in> set (drop n ?zs). x > y"
    unfolding sorted_wrt_append by blast
  with rest show "\<forall>x \<in> set tops. \<forall>y \<in> set xs - set tops. y < x"
    by (auto simp: tops_def)
  show "sorted_wrt (\<lambda>x y. x > y) tops"
    using s unfolding tops_def by (metis append_take_drop_id sorted_wrt_append)
qed

section \<open>Migration: what is read and written\<close>


























section \<open>Migration run twice\<close>


lemma same_refl [simp]: "same_but_adapter w w"
  by (simp add: same_but_adapter_def)



















end
